theory Spec2Isabelle
  imports Complex_Main
begin

section \<open>Parallel sweep: the data model of \<open>algorithms/parallel_sweep.py\<close>\<close>

text \<open>
  \<open>PossibleActions\<close> is the enum of the five primitive actions; \<open>action_value\<close>
  is the enum's \<open>.value\<close>, the code that is sent to the environment.
\<close>

datatype PossibleActions = left | right | up | down | search

fun action_value :: "PossibleActions \<Rightarrow> int" where
  "action_value left = 0"
| "action_value right = 1"
| "action_value up = 2"
| "action_value down = 3"
| "action_value search = 4"

text \<open>
  The exceptions of the file: the \<open>ValueError\<close> of lines 157 and 164, with its
  message, and the \<open>ZeroDivisionError\<close> of the division in line 161. A call that can
  raise returns \<open>error + 'a\<close>.
\<close>

datatype error = ValueError string | ZeroDivisionError

text \<open>The dataclass \<open>DroneInfo\<close>. Python integers are unbounded: \<open>int\<close>.\<close>

record DroneInfo =
  grid_size :: int
  initial_position :: "int \<times> int"
  last_vertice :: "int \<times> int"

text \<open>
  The attributes of a \<open>SingleParallelSweep\<close> object. The attribute \<open>self.grid_size\<close>
  is the field \<open>sweep_grid_size\<close> here (a record field name is global, and
  \<open>DroneInfo\<close> has a \<open>grid_size\<close> already).
\<close>

record SingleParallelSweep =
  sweep_grid_size :: int
  drone_x :: int
  drone_y :: int
  last_vertice_x :: int
  last_vertice_y :: int
  end_position_x :: int
  end_position_y :: int
  is_going_down :: bool

text \<open>\<open>get_end_position\<close>, lines 41-51, on the three attributes it reads.\<close>

definition get_end_position :: "int \<Rightarrow> int \<Rightarrow> int \<Rightarrow> int \<times> int" where
  "get_end_position gs lvx lvy =
     (if gs mod 2 = 0 then (lvx, lvy - gs + 1) else (lvx, lvy))"

text \<open>
  \<open>__init__\<close>, lines 25-39. The constructor has no \<open>raise\<close>: it returns an object
  for every \<open>DroneInfo\<close>.
\<close>

definition sweep_init :: "DroneInfo \<Rightarrow> SingleParallelSweep" where
  "sweep_init drone_info =
     (let gs = grid_size drone_info;
          (dx, dy) = initial_position drone_info;
          (lvx, lvy) = last_vertice drone_info;
          (ex, ey) = get_end_position gs lvx lvy
      in \<lparr> sweep_grid_size = gs, drone_x = dx, drone_y = dy,
           last_vertice_x = lvx, last_vertice_y = lvy,
           end_position_x = ex, end_position_y = ey,
           is_going_down = True \<rparr>)"

text \<open>
  The call \<open>SingleParallelSweep(drone_info)\<close> with its outcome as a value: lines
  25-51 hold no \<open>raise\<close> and no test of \<open>grid_size\<close>, so the outcome is the object.
\<close>

definition construct_sweep :: "DroneInfo \<Rightarrow> error + SingleParallelSweep" where
  "construct_sweep drone_info = Inr (sweep_init drone_info)"

text \<open>
  \<open>check_if_done\<close>, lines 53-75: it returns the answer and the object, whose
  \<open>is_going_down\<close> it flips when the answer is \<open>True\<close>.
\<close>

definition check_if_done :: "SingleParallelSweep \<Rightarrow> bool \<times> SingleParallelSweep" where
  "check_if_done s =
     (if is_going_down s then
        (let reached_last_vertice =
               (drone_x s = end_position_x s \<and> drone_y s = end_position_y s)
         in (reached_last_vertice,
             if reached_last_vertice then s\<lparr>is_going_down := False\<rparr> else s))
      else
        (let reached_initial_position = (drone_x s = 0 \<and> drone_y s = 0)
         in (reached_initial_position,
             if reached_initial_position then s\<lparr>is_going_down := True\<rparr> else s)))"

section \<open>The generator \<open>generate_next_movement\<close> as a state machine\<close>

text \<open>
  A suspended generator is its frame: the object \<open>self\<close>, the local
  \<open>is_going_right\<close> and the place where it is suspended. \<open>Start\<close> is the generator
  before its first \<open>next\<close>, \<open>Y\<close>\<^emph>\<open>n\<close> is the generator suspended at the \<open>yield\<close> of
  line \<^emph>\<open>n\<close>, \<open>Finished\<close> is the generator after its \<open>return\<close>. The local
  \<open>is_going_right\<close> is assigned in line 87 before anything reads it; the frame holds
  \<open>True\<close> until then.
\<close>

datatype yield_point =
  Start | Y84 | Y92 | Y93 | Y99 | Y102 | Y103 | Y109
  | Y113 | Y114 | Y120 | Y123 | Y124 | Y130 | Finished

record generator =
  self :: SingleParallelSweep
  is_going_right :: bool
  pc :: yield_point

definition new_generator :: "SingleParallelSweep \<Rightarrow> generator" where
  "new_generator s = \<lparr> self = s, is_going_right = True, pc = Start \<rparr>"

text \<open>
  The head of the \<open>while True\<close> loop, lines 89-92, 101-102, 111-113 and 122-123: the
  two tests choose one of four branches, and each branch starts with
  \<open>yield PossibleActions.search\<close>.
\<close>

definition loop_top :: "generator \<Rightarrow> PossibleActions option \<times> generator" where
  "loop_top g =
     (if is_going_down (self g) then
        (if is_going_right g then (Some search, g\<lparr>pc := Y92\<rparr>)
         else (Some search, g\<lparr>pc := Y102\<rparr>))
      else
        (if is_going_right g then (Some search, g\<lparr>pc := Y113\<rparr>)
         else (Some search, g\<lparr>pc := Y123\<rparr>)))"

text \<open>
  The code that runs after a horizontal move has been yielded, up to the next
  \<open>yield\<close>: lines 94-99 with \<open>dy = 1\<close>, \<open>turn_to = False\<close>, \<open>vertical = down\<close>;
  lines 104-109, 115-120 and 125-130 likewise. \<open>at_edge\<close> is the test of line 96,
  106, 117 or 127 on the new \<open>drone_y\<close>.
\<close>

definition after_horizontal ::
  "generator \<Rightarrow> int \<Rightarrow> (SingleParallelSweep \<Rightarrow> bool) \<Rightarrow> bool \<Rightarrow> PossibleActions \<Rightarrow> yield_point
     \<Rightarrow> PossibleActions option \<times> generator" where
  "after_horizontal g dy at_edge turn_to vertical vertical_pc =
     (let s1 = (self g)\<lparr>drone_y := drone_y (self g) + dy\<rparr> in
      if at_edge s1 then
        (let (finished, s2) = check_if_done s1;
             g2 = g\<lparr>self := s2, is_going_right := turn_to\<rparr>
         in if \<not> finished then (Some vertical, g2\<lparr>pc := vertical_pc\<rparr>)
            else loop_top g2)
      else loop_top (g\<lparr>self := s1\<rparr>))"

text \<open>The code that runs after a vertical move has been yielded: lines 100, 110, 121, 131.\<close>

definition after_vertical :: "generator \<Rightarrow> int \<Rightarrow> PossibleActions option \<times> generator" where
  "after_vertical g dx = loop_top (g\<lparr>self := (self g)\<lparr>drone_x := drone_x (self g) + dx\<rparr>\<rparr>)"

text \<open>
  One \<open>next\<close> on the generator: the action it yields (\<open>None\<close> for \<open>StopIteration\<close>)
  and the frame it is suspended in afterwards.
\<close>

definition resume :: "generator \<Rightarrow> PossibleActions option \<times> generator" where
  "resume g =
     (case pc g of
        Start \<Rightarrow>
          (let (finished, s) = check_if_done (self g) in
           if finished then (Some search, g\<lparr>self := s, pc := Y84\<rparr>)
           else loop_top (g\<lparr>self := s, is_going_right := True\<rparr>))
      | Y84 \<Rightarrow> (None, g\<lparr>pc := Finished\<rparr>)
      | Finished \<Rightarrow> (None, g)
      | Y92 \<Rightarrow> (Some right, g\<lparr>pc := Y93\<rparr>)
      | Y93 \<Rightarrow> after_horizontal g 1 (\<lambda>s. drone_y s = sweep_grid_size s - 1) False down Y99
      | Y99 \<Rightarrow> after_vertical g 1
      | Y102 \<Rightarrow> (Some left, g\<lparr>pc := Y103\<rparr>)
      | Y103 \<Rightarrow> after_horizontal g (- 1) (\<lambda>s. drone_y s = 0) True down Y109
      | Y109 \<Rightarrow> after_vertical g 1
      | Y113 \<Rightarrow> (Some right, g\<lparr>pc := Y114\<rparr>)
      | Y114 \<Rightarrow> after_horizontal g 1 (\<lambda>s. drone_y s = sweep_grid_size s - 1) False up Y120
      | Y120 \<Rightarrow> after_vertical g (- 1)
      | Y123 \<Rightarrow> (Some left, g\<lparr>pc := Y124\<rparr>)
      | Y124 \<Rightarrow> after_horizontal g (- 1) (\<lambda>s. drone_y s = 0) True up Y130
      | Y130 \<Rightarrow> after_vertical g (- 1))"

text \<open>The frame after \<open>k\<close> calls of \<open>next\<close>, and the action the next call yields.\<close>

primrec pulls :: "nat \<Rightarrow> generator \<Rightarrow> generator" where
  "pulls 0 g = g"
| "pulls (Suc k) g = snd (resume (pulls k g))"

definition nth_action :: "nat \<Rightarrow> generator \<Rightarrow> PossibleActions option" where
  "nth_action k g = fst (resume (pulls k g))"

text \<open>The first \<open>k\<close> actions of the stream (fewer when the generator returns earlier).\<close>

primrec stream_prefix :: "nat \<Rightarrow> generator \<Rightarrow> PossibleActions list" where
  "stream_prefix 0 g = []"
| "stream_prefix (Suc k) g =
     (case resume g of
        (None, _) \<Rightarrow> []
      | (Some a, g') \<Rightarrow> a # stream_prefix k g')"

text \<open>
  The position a consumer of the stream tracks: the generator's own updates of
  \<open>drone_x\<close> and \<open>drone_y\<close> after each move (lines 94, 100, 104, 121, ...).
\<close>

fun move :: "PossibleActions \<Rightarrow> int \<times> int \<Rightarrow> int \<times> int" where
  "move right (x, y) = (x, y + 1)"
| "move left (x, y) = (x, y - 1)"
| "move down (x, y) = (x + 1, y)"
| "move up (x, y) = (x - 1, y)"
| "move search (x, y) = (x, y)"

definition track :: "int \<times> int \<Rightarrow> PossibleActions list \<Rightarrow> int \<times> int" where
  "track p as = fold move as p"

text \<open>The planner on an \<open>n \<times> n\<close> grid that the claims speak of, and its generator.\<close>

definition square_info :: "int \<Rightarrow> DroneInfo" where
  "square_info n = \<lparr> grid_size = n, initial_position = (0, 0), last_vertice = (n - 1, n - 1) \<rparr>"

definition square_generator :: "int \<Rightarrow> generator" where
  "square_generator n = new_generator (sweep_init (square_info n))"

text \<open>
  \<open>pending_position\<close> is where the consumer of the stream stands when the generator
  is suspended in frame \<open>g\<close>: the generator adds a move to \<open>drone_x\<close> or \<open>drone_y\<close>
  only when it is resumed after the \<open>yield\<close> of that move.
\<close>

primrec tracked_position :: "nat \<Rightarrow> generator \<Rightarrow> int \<times> int" where
  "tracked_position 0 g = (drone_x (self g), drone_y (self g))"
| "tracked_position (Suc k) g =
     (case nth_action k g of
        None \<Rightarrow> tracked_position k g
      | Some a \<Rightarrow> move a (tracked_position k g))"

definition pending_position :: "generator \<Rightarrow> int \<times> int" where
  "pending_position g =
     (let x = drone_x (self g); y = drone_y (self g) in
      if pc g = Y93 \<or> pc g = Y114 then (x, y + 1)
      else if pc g = Y103 \<or> pc g = Y124 then (x, y - 1)
      else if pc g = Y99 \<or> pc g = Y109 then (x + 1, y)
      else if pc g = Y120 \<or> pc g = Y130 then (x - 1, y)
      else (x, y))"

text \<open>
  The cell at which each action of a stream is emitted, the cells a stream passes, and
  the cells at which it emits \<open>search\<close>.
\<close>

fun emitted_at :: "int \<times> int \<Rightarrow> PossibleActions list \<Rightarrow> ((int \<times> int) \<times> PossibleActions) list" where
  "emitted_at p [] = []"
| "emitted_at p (a # as) = (p, a) # emitted_at (move a p) as"

definition visited_cells :: "int \<times> int \<Rightarrow> PossibleActions list \<Rightarrow> (int \<times> int) list" where
  "visited_cells p as = map fst (emitted_at p as) @ [track p as]"

definition searched_cells :: "int \<times> int \<Rightarrow> PossibleActions list \<Rightarrow> (int \<times> int) list" where
  "searched_cells p as = map fst (filter (\<lambda>e. snd e = search) (emitted_at p as))"

subsection \<open>The invariant of the generator on an \<open>n \<times> n\<close> grid\<close>

text \<open>
  In the sweep down the rows with an even \<open>drone_x\<close> are swept to the right, in the
  sweep up the rows with an odd \<open>drone_x\<close>; \<open>sweep_inv\<close> says so for each place
  where the generator can be suspended.
\<close>

definition sweep_inv :: "int \<Rightarrow> generator \<Rightarrow> bool" where
  "sweep_inv n g =
     (let s = self g; x = drone_x s; y = drone_y s in
      sweep_grid_size s = n \<and> end_position_x s = n - 1 \<and>
      end_position_y s = (if even n then 0 else n - 1) \<and>
      0 \<le> x \<and> x < n \<and> 0 \<le> y \<and> y < n \<and>
      (case pc g of
         Start \<Rightarrow> x = 0 \<and> y = 0 \<and> is_going_down s
       | Y84 \<Rightarrow> n = 1
       | Finished \<Rightarrow> n = 1
       | Y92 \<Rightarrow> is_going_down s \<and> is_going_right g \<and> even x \<and> y < n - 1
       | Y93 \<Rightarrow> is_going_down s \<and> is_going_right g \<and> even x \<and> y < n - 1
       | Y99 \<Rightarrow> is_going_down s \<and> \<not> is_going_right g \<and> even x \<and> y = n - 1 \<and> x < n - 1
       | Y102 \<Rightarrow> is_going_down s \<and> \<not> is_going_right g \<and> odd x \<and> 0 < y
       | Y103 \<Rightarrow> is_going_down s \<and> \<not> is_going_right g \<and> odd x \<and> 0 < y
       | Y109 \<Rightarrow> is_going_down s \<and> is_going_right g \<and> odd x \<and> y = 0 \<and> x < n - 1
       | Y113 \<Rightarrow> \<not> is_going_down s \<and> is_going_right g \<and> odd x \<and> y < n - 1
       | Y114 \<Rightarrow> \<not> is_going_down s \<and> is_going_right g \<and> odd x \<and> y < n - 1
       | Y120 \<Rightarrow> \<not> is_going_down s \<and> \<not> is_going_right g \<and> odd x \<and> y = n - 1
       | Y123 \<Rightarrow> \<not> is_going_down s \<and> \<not> is_going_right g \<and> even x \<and> 0 < y
       | Y124 \<Rightarrow> \<not> is_going_down s \<and> \<not> is_going_right g \<and> even x \<and> 0 < y
       | Y130 \<Rightarrow> \<not> is_going_down s \<and> is_going_right g \<and> even x \<and> y = 0 \<and> 0 < x))"

text \<open>
  The rows still to sweep in the current phase and the calls of \<open>next\<close> still to come
  in the current row: the pair decreases lexicographically with every \<open>next\<close> that
  leaves \<open>is_going_down\<close> as it is.
\<close>

definition rows_left :: "generator \<Rightarrow> nat" where
  "rows_left g =
     nat (if is_going_down (self g) then sweep_grid_size (self g) - 1 - drone_x (self g)
          else drone_x (self g))"

definition row_steps_left :: "generator \<Rightarrow> nat" where
  "row_steps_left g =
     (let to_right = sweep_grid_size (self g) - 1 - drone_y (self g); to_left = drone_y (self g) in
      if pc g = Y92 \<or> pc g = Y113 then nat (2 * to_right)
      else if pc g = Y93 \<or> pc g = Y114 then nat (2 * to_right - 1)
      else if pc g = Y102 \<or> pc g = Y123 then nat (2 * to_left)
      else if pc g = Y103 \<or> pc g = Y124 then nat (2 * to_left - 1)
      else 0)"

text \<open>
  The order in which the sweep down passes the cells: row after row, the rows with an
  even \<open>x\<close> from left to right and the rows with an odd \<open>x\<close> from right to left.
  \<open>progress n p\<close> is the row of the cell \<open>p\<close> and the number of cells of that row
  that come before it.
\<close>

definition progress :: "int \<Rightarrow> int \<times> int \<Rightarrow> int \<times> int" where
  "progress n p = (fst p, if even (fst p) then snd p else n - 1 - snd p)"

definition path_le :: "int \<Rightarrow> int \<times> int \<Rightarrow> int \<times> int \<Rightarrow> bool" where
  "path_le n p q =
     (fst (progress n p) < fst (progress n q) \<or>
      fst (progress n p) = fst (progress n q) \<and> snd (progress n p) \<le> snd (progress n q))"

definition in_grid :: "int \<Rightarrow> int \<times> int \<Rightarrow> bool" where
  "in_grid n p = (0 \<le> fst p \<and> fst p < n \<and> 0 \<le> snd p \<and> snd p < n)"

section \<open>The coordinator \<open>MultipleParallelSweep\<close>\<close>

text \<open>
  What the coordinator reads of the environment: \<open>env.grid_size\<close> and
  \<open>env.possible_agents\<close>. The class \<open>DroneSwarmSearch\<close> itself is not part of
  the repository.
\<close>

record Env =
  env_grid_size :: int
  possible_agents :: "string list"

text \<open>The attributes of the coordinator (\<open>self.grid_size\<close> is \<open>swarm_grid_size\<close>).\<close>

record MultipleParallelSweep =
  swarm_grid_size :: int
  n_drones :: nat
  grid_size_each_drone :: int

text \<open>Python's \<open>int(q)\<close> on a float: truncation towards zero.\<close>

definition py_int :: "real \<Rightarrow> int" where
  "py_int q = (if 0 \<le> q then \<lfloor>q\<rfloor> else \<lceil>q\<rceil>)"

text \<open>
  \<open>get_each_drone_grid_size\<close>, lines 150-166, on \<open>self.grid_size\<close> and
  \<open>self.n_drones\<close>. \<open>math.sqrt\<close> and \<open>/\<close> compute in double precision; the model
  computes in the reals, which is what the doubles give as long as the number of
  drones is a square and the numbers stay below \<open>2^53\<close>. A division by the float
  \<open>0.0\<close> raises \<open>ZeroDivisionError\<close>; \<open>q % 1\<close> is the fractional part of \<open>q\<close>.
\<close>

definition get_each_drone_grid_size :: "int \<Rightarrow> nat \<Rightarrow> error + int" where
  "get_each_drone_grid_size gs n =
     (if n \<notin> {1, 2} \<and> n mod 4 \<noteq> 0 then
        Inl (ValueError ''The number of agents must be 1 or 2 or a multiple of 4'')
      else
        (let divisor = (if n = 2 then 2 else sqrt (real n)) in
         if divisor = 0 then Inl ZeroDivisionError
         else
           (let grid_size_each_drone = real_of_int gs / divisor in
            if frac grid_size_each_drone \<noteq> 0 then
              Inl (ValueError ''The grid size must be a multiple of the number of agents'')
            else Inr (py_int grid_size_each_drone))))"

text \<open>\<open>MultipleParallelSweep.__init__\<close>, lines 144-148.\<close>

definition swarm_init :: "Env \<Rightarrow> error + MultipleParallelSweep" where
  "swarm_init env =
     (let gs = env_grid_size env; n = length (possible_agents env) in
      case get_each_drone_grid_size gs n of
        Inl e \<Rightarrow> Inl e
      | Inr each \<Rightarrow> Inr \<lparr> swarm_grid_size = gs, n_drones = n, grid_size_each_drone = each \<rparr>)"

text \<open>\<open>get_first_drone_info\<close>, lines 168-184.\<close>

definition get_first_drone_info :: "MultipleParallelSweep \<Rightarrow> DroneInfo" where
  "get_first_drone_info m =
     (let last_vertice =
            (if n_drones m \<noteq> 2 then (grid_size_each_drone m - 1, grid_size_each_drone m - 1)
             else (grid_size_each_drone m * 2 - 1, 0))
      in \<lparr> grid_size = grid_size_each_drone m, initial_position = (0, 0),
           last_vertice = last_vertice \<rparr>)"

text \<open>
  \<open>str(i)\<close> of a natural number, and the key \<open>f"drone{i}"\<close> of line 221.
\<close>

fun str_nat :: "nat \<Rightarrow> string" where
  "str_nat n =
     (if n < 10 then [''0123456789'' ! n]
      else str_nat (n div 10) @ [''0123456789'' ! (n mod 10)])"

definition drone_key :: "nat \<Rightarrow> string" where
  "drone_key i = ''drone'' @ str_nat i"

text \<open>\<open>genarate_next_action\<close> (the source's spelling), lines 133-140: the codes of the actions.\<close>

definition genarate_next_action :: "generator \<Rightarrow> int option \<times> generator" where
  "genarate_next_action g = (case resume g of (a, g') \<Rightarrow> (map_option action_value a, g'))"

text \<open>The dictionary that lines 218-221 build for one action.\<close>

definition action_map :: "nat \<Rightarrow> int \<Rightarrow> (string \<rightharpoonup> int)" where
  "action_map n action = fold (\<lambda>i actions. actions(drone_key i \<mapsto> action)) [0..<n] Map.empty"

text \<open>
  \<open>generate_next_action\<close>, lines 208-223: the planner of line 215, and one \<open>next\<close> on
  the coordinator's generator, whose frame is the frame of the planner's generator.
\<close>

definition reference_generator :: "MultipleParallelSweep \<Rightarrow> generator" where
  "reference_generator m = new_generator (sweep_init (get_first_drone_info m))"

definition generate_next_action ::
  "MultipleParallelSweep \<Rightarrow> generator \<Rightarrow> (string \<rightharpoonup> int) option \<times> generator" where
  "generate_next_action m g =
     (case genarate_next_action g of
        (None, g') \<Rightarrow> (None, g')
      | (Some action, g') \<Rightarrow> (Some (action_map (n_drones m) action), g'))"

text \<open>The action map of tick \<open>k\<close> (the first tick is tick 0).\<close>

definition nth_action_map :: "nat \<Rightarrow> MultipleParallelSweep \<Rightarrow> (string \<rightharpoonup> int) option" where
  "nth_action_map k m = fst (generate_next_action m (pulls k (reference_generator m)))"

section \<open>Lemmas on the generator\<close>

declare str_nat.simps [simp del]

lemmas step_defs = resume_def after_horizontal_def after_vertical_def loop_top_def
  check_if_done_def Let_def

lemma pulls_Suc_head: "pulls (Suc k) g = pulls k (snd (resume g))"
  by (induction k) simp_all

lemma pulls_add: "pulls j (pulls k g) = pulls (j + k) g"
  by (induction j) simp_all

lemma sweep_inv_init: "1 \<le> n \<Longrightarrow> sweep_inv n (square_generator n)"
  by (auto simp: sweep_inv_def square_generator_def new_generator_def sweep_init_def
      square_info_def get_end_position_def; presburger)

lemma sweep_inv_resume:
  assumes "sweep_inv n g"
  shows "sweep_inv n (snd (resume g))"
  using assms
  by (cases "pc g"; auto simp: sweep_inv_def step_defs split: if_splits; presburger)

lemma sweep_inv_pulls: "1 \<le> n \<Longrightarrow> sweep_inv n (pulls k (square_generator n))"
  by (induction k) (simp_all add: sweep_inv_init sweep_inv_resume)

lemma pending_position_resume:
  "pending_position (snd (resume g)) =
     (case fst (resume g) of None \<Rightarrow> pending_position g | Some a \<Rightarrow> move a (pending_position g))"
  by (cases "pc g"; simp add: pending_position_def step_defs split: if_splits prod.splits)

lemma tracked_position_pending:
  "pc g = Start \<Longrightarrow> tracked_position k g = pending_position (pulls k g)"
proof (induction k)
  case 0
  then show ?case by (simp add: pending_position_def)
next
  case (Suc k)
  then show ?case
    by (simp add: nth_action_def pending_position_resume split: option.splits)
qed

lemma resume_not_Start: "pc (snd (resume g)) \<noteq> Start"
  by (cases "pc g"; simp add: step_defs split: if_splits prod.splits)

lemma resume_yields: "sweep_inv n g \<Longrightarrow> 2 \<le> n \<Longrightarrow> fst (resume g) \<noteq> None"
  by (cases "pc g"; auto simp: sweep_inv_def step_defs split: if_splits)

lemma flip_iff:
  assumes "sweep_inv n g" and "2 \<le> n"
  shows "is_going_down (self (snd (resume g))) =
     (if pending_position g =
           (if is_going_down (self g) then get_end_position n (n - 1) (n - 1) else (0, 0))
      then \<not> is_going_down (self g) else is_going_down (self g))"
  using assms
  by (cases "pc g";
      auto simp: sweep_inv_def step_defs pending_position_def get_end_position_def
           split: if_splits;
      presburger)

lemma resume_progress:
  assumes "sweep_inv n g" and "2 \<le> n" and "pc g \<noteq> Start"
    and "is_going_down (self (snd (resume g))) = is_going_down (self g)"
  shows "rows_left (snd (resume g)) < rows_left g \<or>
         rows_left (snd (resume g)) = rows_left g \<and>
         row_steps_left (snd (resume g)) < row_steps_left g"
  using assms
  by (cases "pc g";
      auto simp: sweep_inv_def step_defs rows_left_def row_steps_left_def split: if_splits;
      presburger)

lemma eventually_flips:
  assumes "2 \<le> n" and "sweep_inv n g" and "pc g \<noteq> Start"
  shows "\<exists>j. is_going_down (self (pulls j g)) \<noteq> is_going_down (self g)"
proof -
  let ?R = "inv_image (less_than <*lex*> less_than) (\<lambda>g. (rows_left g, row_steps_left g))"
  have wf: "wf ?R" by (intro wf_inv_image wf_lex_prod wf_less_than)
  from wf show ?thesis using assms(2,3)
  proof (induction g rule: wf_induct_rule)
    case (less g)
    let ?g' = "snd (resume g)"
    show ?case
    proof (cases "is_going_down (self ?g') = is_going_down (self g)")
      case False
      then have "is_going_down (self (pulls 1 g)) \<noteq> is_going_down (self g)" by simp
      then show ?thesis by blast
    next
      case True
      from resume_progress [OF less.prems(1) assms(1) less.prems(2) True]
      have "(?g', g) \<in> ?R" by auto
      moreover have "sweep_inv n ?g'" by (rule sweep_inv_resume [OF less.prems(1)])
      moreover have "pc ?g' \<noteq> Start" by (rule resume_not_Start)
      ultimately obtain j where "is_going_down (self (pulls j ?g')) \<noteq> is_going_down (self ?g')"
        using less.IH by blast
      then have "is_going_down (self (pulls (Suc j) g)) \<noteq> is_going_down (self g)"
        using True unfolding pulls_Suc_head by simp
      then show ?thesis by blast
    qed
  qed
qed

lemma pending_position_in_grid:
  assumes "sweep_inv n g"
  shows "0 \<le> fst (pending_position g) \<and> fst (pending_position g) < n \<and>
         0 \<le> snd (pending_position g) \<and> snd (pending_position g) < n"
  using assms
  by (cases "pc g"; auto simp: sweep_inv_def pending_position_def Let_def split: if_splits;
      presburger)

lemma square_generator_Start: "pc (square_generator n) = Start"
  by (simp add: square_generator_def new_generator_def)

lemma path_le_antisym:
  "path_le n p q \<Longrightarrow> path_le n q p \<Longrightarrow> p = q"
  by (cases p; cases q; auto simp: path_le_def progress_def split: if_splits)

lemma path_le_end:
  "in_grid n q \<Longrightarrow> path_le n q (get_end_position n (n - 1) (n - 1))"
  by (cases q; auto simp: path_le_def progress_def in_grid_def get_end_position_def; presburger)

lemma resume_next_cell:
  assumes "sweep_inv n g" and "2 \<le> n" and "is_going_down (self g)"
    and "is_going_down (self (snd (resume g)))"
    and "in_grid n q" and "path_le n (pending_position g) q" and "pending_position g \<noteq> q"
  shows "path_le n (pending_position (snd (resume g))) q"
  using assms
  by (cases "pc g"; cases q;
      auto simp: sweep_inv_def step_defs pending_position_def path_le_def progress_def in_grid_def
           split: if_splits;
      presburger)


lemma reaches_cell:
  assumes "2 \<le> n" and "in_grid n q"
    and "sweep_inv n g" and "pc g \<noteq> Start" and "is_going_down (self g)"
    and "path_le n (pending_position g) q"
  shows "\<exists>j. pending_position (pulls j g) = q \<and> (\<forall>i\<le>j. is_going_down (self (pulls i g)))"
proof -
  let ?R = "inv_image (less_than <*lex*> less_than) (\<lambda>g. (rows_left g, row_steps_left g))"
  have wf: "wf ?R" by (intro wf_inv_image wf_lex_prod wf_less_than)
  from wf show ?thesis using assms(3-6)
  proof (induction g rule: wf_induct_rule)
    case (less g)
    let ?g' = "snd (resume g)"
    show ?case
    proof (cases "pending_position g = q")
      case True
      then have "pending_position (pulls 0 g) = q \<and>
                 (\<forall>i\<le>0. is_going_down (self (pulls i g)))"
        using less.prems(3) by simp
      then show ?thesis by blast
    next
      case False
      have "pending_position g \<noteq> get_end_position n (n - 1) (n - 1)"
      proof
        assume "pending_position g = get_end_position n (n - 1) (n - 1)"
        then have "path_le n q (pending_position g)"
          using path_le_end [OF assms(2)] by simp
        with less.prems(4) have "pending_position g = q" by (rule path_le_antisym)
        with False show False by simp
      qed
      then have down': "is_going_down (self ?g')"
        using flip_iff [OF less.prems(1) assms(1)] less.prems(3) by simp
      then have same: "is_going_down (self ?g') = is_going_down (self g)"
        using less.prems(3) by simp
      from resume_progress [OF less.prems(1) assms(1) less.prems(2) same]
      have "(?g', g) \<in> ?R" by auto
      moreover have "sweep_inv n ?g'" by (rule sweep_inv_resume [OF less.prems(1)])
      moreover have "pc ?g' \<noteq> Start" by (rule resume_not_Start)
      moreover have "path_le n (pending_position ?g') q"
        by (rule resume_next_cell [OF less.prems(1) assms(1) less.prems(3) down' assms(2)
              less.prems(4) False])
      ultimately obtain j where j: "pending_position (pulls j ?g') = q"
        and js: "\<forall>i\<le>j. is_going_down (self (pulls i ?g'))"
        using less.IH down' by blast
      have "is_going_down (self (pulls i g))" if "i \<le> Suc j" for i
      proof (cases i)
        case 0
        then show ?thesis using less.prems(3) by simp
      next
        case (Suc i')
        then have "i' \<le> j" using that by simp
        with js have "is_going_down (self (pulls i' ?g'))" by blast
        then show ?thesis unfolding Suc pulls_Suc_head .
      qed
      moreover have "pending_position (pulls (Suc j) g) = q"
        using j unfolding pulls_Suc_head .
      ultimately show ?thesis by blast
    qed
  qed
qed

text \<open>The coordinator of two drones on a \<open>6 \<times> 6\<close> grid and its planner.\<close>

lemma swarm_init_6_2:
  "swarm_init \<lparr>env_grid_size = 6, possible_agents = [''drone0'', ''drone1'']\<rparr> =
     Inr \<lparr>swarm_grid_size = 6, n_drones = 2, grid_size_each_drone = 3\<rparr>"
  by (simp add: swarm_init_def get_each_drone_grid_size_def py_int_def)

lemma reference_generator_6_2:
  "reference_generator \<lparr>swarm_grid_size = 6, n_drones = 2, grid_size_each_drone = 3\<rparr> =
     new_generator (sweep_init \<lparr>grid_size = 3, initial_position = (0, 0), last_vertice = (5, 0)\<rparr>)"
  by (simp add: reference_generator_def get_first_drone_info_def)

section \<open>The claims on the single-agent planner\<close>

text \<open>
  C2 (phase alternation). On an \<open>n \<times> n\<close> grid with \<open>n \<ge> 2\<close> the planner starts
  with \<open>is_going_down\<close>; its stream never ends; the \<open>next\<close> after the tracked
  position has reached the target of the current phase (\<open>endPosition\<close> in the sweep
  down, \<open>(0, 0)\<close> in the sweep up) flips the phase, and no other \<open>next\<close> does; and
  after every number of calls a later call flips the phase again, so the alternation
  goes on for ever.
\<close>

theorem phase_alternation:
  assumes "2 \<le> n"
  shows "is_going_down (self (square_generator n)) \<and>
    (\<forall>k. nth_action k (square_generator n) \<noteq> None) \<and>
    (\<forall>k. is_going_down (self (pulls (Suc k) (square_generator n))) =
       (if tracked_position k (square_generator n) =
             (if is_going_down (self (pulls k (square_generator n)))
              then get_end_position n (n - 1) (n - 1) else (0, 0))
        then \<not> is_going_down (self (pulls k (square_generator n)))
        else is_going_down (self (pulls k (square_generator n))))) \<and>
    (\<forall>k. \<exists>j>k. is_going_down (self (pulls j (square_generator n))) \<noteq>
                is_going_down (self (pulls k (square_generator n))))"
proof -
  let ?g = "square_generator n"
  have n1: "1 \<le> n" using assms by simp
  have inv: "sweep_inv n (pulls k ?g)" for k by (rule sweep_inv_pulls [OF n1])
  have start: "is_going_down (self ?g)"
    by (simp add: square_generator_def new_generator_def sweep_init_def square_info_def
        split: prod.splits)
  have yields: "nth_action k ?g \<noteq> None" for k
    unfolding nth_action_def by (rule resume_yields [OF inv assms])
  have flips: "is_going_down (self (pulls (Suc k) ?g)) =
       (if tracked_position k ?g =
             (if is_going_down (self (pulls k ?g))
              then get_end_position n (n - 1) (n - 1) else (0, 0))
        then \<not> is_going_down (self (pulls k ?g))
        else is_going_down (self (pulls k ?g)))" for k
    using flip_iff [OF inv assms, of k]
    by (simp only: tracked_position_pending [OF square_generator_Start] pulls.simps)
  have first: "is_going_down (self (pulls 1 ?g)) = is_going_down (self ?g)"
    using flips [of 0] assms
    by (simp add: square_generator_def new_generator_def sweep_init_def square_info_def
        get_end_position_def split: prod.splits if_splits)
  have later: "\<exists>j>k. is_going_down (self (pulls j ?g)) \<noteq> is_going_down (self (pulls k ?g))"
    if pos: "0 < k" for k
  proof -
    obtain k' where k': "k = Suc k'" using pos by (cases k) auto
    have "pc (pulls k ?g) \<noteq> Start" unfolding k' pulls.simps by (rule resume_not_Start)
    from eventually_flips [OF assms inv this]
    obtain j where j: "is_going_down (self (pulls (j + k) ?g)) \<noteq> is_going_down (self (pulls k ?g))"
      unfolding pulls_add by blast
    then have "j \<noteq> 0" by (cases j) auto
    then have "k < j + k" by simp
    with j show ?thesis by blast
  qed
  have live: "\<exists>j>k. is_going_down (self (pulls j ?g)) \<noteq> is_going_down (self (pulls k ?g))" for k
  proof (cases k)
    case 0
    from later [of 1] obtain j where "1 < j"
      and "is_going_down (self (pulls j ?g)) \<noteq> is_going_down (self (pulls 1 ?g))" by auto
    then have "0 < j \<and> is_going_down (self (pulls j ?g)) \<noteq> is_going_down (self (pulls 0 ?g))"
      using first by simp
    then show ?thesis unfolding 0 by blast
  next
    case (Suc k')
    then show ?thesis using later [of k] by simp
  qed
  from start yields flips live show ?thesis by blast
qed

text \<open>
  The theorem on the \<open>2 \<times> 2\<close> grid, with the phases after the first 31 calls of
  \<open>next\<close> (three sweeps down and three sweeps up) and the cells where the sweeps end.
\<close>

theorem phase_alternation_witness:
  "(2::int) \<le> 2 \<and>
   is_going_down (self (square_generator 2)) \<and>
   (\<forall>k. nth_action k (square_generator 2) \<noteq> None) \<and>
   (\<forall>k. is_going_down (self (pulls (Suc k) (square_generator 2))) =
       (if tracked_position k (square_generator 2) =
             (if is_going_down (self (pulls k (square_generator 2)))
              then get_end_position 2 (2 - 1) (2 - 1) else (0, 0))
        then \<not> is_going_down (self (pulls k (square_generator 2)))
        else is_going_down (self (pulls k (square_generator 2))))) \<and>
   (\<forall>k. \<exists>j>k. is_going_down (self (pulls j (square_generator 2))) \<noteq>
                is_going_down (self (pulls k (square_generator 2)))) \<and>
   map (\<lambda>k. is_going_down (self (pulls k (square_generator 2)))) [0..<32] =
     replicate 6 True @ replicate 5 False @ replicate 5 True @ replicate 5 False @
     replicate 5 True @ replicate 5 False @ [True] \<and>
   map (\<lambda>k. tracked_position k (square_generator 2)) [5, 10, 15, 20, 25, 30] =
     [(1, 0), (0, 0), (1, 0), (0, 0), (1, 0), (0, 0)]"
proof -
  have le: "(2::int) \<le> 2" by simp
  have phases: "map (\<lambda>k. is_going_down (self (pulls k (square_generator 2)))) [0..<32] =
     replicate 6 True @ replicate 5 False @ replicate 5 True @ replicate 5 False @
     replicate 5 True @ replicate 5 False @ [True]"
    by code_simp
  have cells: "map (\<lambda>k. tracked_position k (square_generator 2)) [5, 10, 15, 20, 25, 30] =
     [(1, 0), (0, 0), (1, 0), (0, 0), (1, 0), (0, 0)]"
    by code_simp
  from le phase_alternation [OF le] phases cells show ?thesis by blast
qed

text \<open>
  C3 (position within the grid), as amended. For the planner on an \<open>n \<times> n\<close> grid
  with \<open>n \<ge> 1\<close>, initial position \<open>(0, 0)\<close> and last vertex \<open>(n - 1, n - 1)\<close>, which
  is the planner the coordinator builds for every number of drones but 2: after every
  number of calls of \<open>next\<close> the planner's own position and the position the
  consumer tracks are within \<open>0 \<le> x, y < n\<close>, and \<open>n\<close> is the planner's grid size.
\<close>

theorem position_in_grid:
  assumes "1 \<le> n"
  shows "0 \<le> drone_x (self (pulls k (square_generator n))) \<and>
         drone_x (self (pulls k (square_generator n))) < n \<and>
         0 \<le> drone_y (self (pulls k (square_generator n))) \<and>
         drone_y (self (pulls k (square_generator n))) < n \<and>
         0 \<le> fst (tracked_position k (square_generator n)) \<and>
         fst (tracked_position k (square_generator n)) < n \<and>
         0 \<le> snd (tracked_position k (square_generator n)) \<and>
         snd (tracked_position k (square_generator n)) < n \<and>
         sweep_grid_size (self (pulls k (square_generator n))) = n"
proof -
  let ?g = "pulls k (square_generator n)"
  have inv: "sweep_inv n ?g" by (rule sweep_inv_pulls [OF assms])
  have own: "0 \<le> drone_x (self ?g) \<and> drone_x (self ?g) < n \<and>
             0 \<le> drone_y (self ?g) \<and> drone_y (self ?g) < n \<and> sweep_grid_size (self ?g) = n"
    using inv by (simp add: sweep_inv_def Let_def)
  have "0 \<le> fst (pending_position ?g) \<and> fst (pending_position ?g) < n \<and>
        0 \<le> snd (pending_position ?g) \<and> snd (pending_position ?g) < n"
    by (rule pending_position_in_grid [OF inv])
  then show ?thesis
    using own by (simp add: tracked_position_pending [OF square_generator_Start])
qed

text \<open>The theorem on the \<open>3 \<times> 3\<close> grid after seven calls of \<open>next\<close>.\<close>

theorem position_in_grid_witness:
  "(1::int) \<le> 3 \<and>
   0 \<le> drone_x (self (pulls 7 (square_generator 3))) \<and>
   drone_x (self (pulls 7 (square_generator 3))) < 3 \<and>
   0 \<le> drone_y (self (pulls 7 (square_generator 3))) \<and>
   drone_y (self (pulls 7 (square_generator 3))) < 3 \<and>
   0 \<le> fst (tracked_position 7 (square_generator 3)) \<and>
   fst (tracked_position 7 (square_generator 3)) < 3 \<and>
   0 \<le> snd (tracked_position 7 (square_generator 3)) \<and>
   snd (tracked_position 7 (square_generator 3)) < 3 \<and>
   sweep_grid_size (self (pulls 7 (square_generator 3))) = 3"
proof -
  have le: "(1::int) \<le> 3" by simp
  from le position_in_grid [OF le, of 7] show ?thesis by blast
qed

text \<open>
  C3 as stated fails for the planner of two drones: on a \<open>6 \<times> 6\<close> grid each drone
  gets the grid size 3 and the last vertex \<open>(5, 0)\<close>, and the sweep goes on below
  row 2. After 16 calls of \<open>next\<close> the planner's \<open>drone_x\<close> is 3, its grid size.
\<close>

theorem position_in_grid_counterexample:
  "swarm_init \<lparr>env_grid_size = 6, possible_agents = [''drone0'', ''drone1'']\<rparr> =
     Inr \<lparr>swarm_grid_size = 6, n_drones = 2, grid_size_each_drone = 3\<rparr> \<and>
   sweep_grid_size (self (pulls 16 (reference_generator
     \<lparr>swarm_grid_size = 6, n_drones = 2, grid_size_each_drone = 3\<rparr>))) = 3 \<and>
   drone_x (self (pulls 16 (reference_generator
     \<lparr>swarm_grid_size = 6, n_drones = 2, grid_size_each_drone = 3\<rparr>))) = 3 \<and>
   \<not> drone_x (self (pulls 16 (reference_generator
     \<lparr>swarm_grid_size = 6, n_drones = 2, grid_size_each_drone = 3\<rparr>))) <
     sweep_grid_size (self (pulls 16 (reference_generator
     \<lparr>swarm_grid_size = 6, n_drones = 2, grid_size_each_drone = 3\<rparr>)))"
proof -
  have "sweep_grid_size (self (pulls 16 (new_generator
          (sweep_init \<lparr>grid_size = 3, initial_position = (0, 0), last_vertice = (5, 0)\<rparr>)))) = 3"
    by code_simp
  moreover have "drone_x (self (pulls 16 (new_generator
          (sweep_init \<lparr>grid_size = 3, initial_position = (0, 0), last_vertice = (5, 0)\<rparr>)))) = 3"
    by code_simp
  ultimately show ?thesis
    by (simp add: swarm_init_6_2 reference_generator_6_2)
qed

text \<open>
  C6 (end position). The constructor sets the end position to the last vertex when the
  grid size is odd, and to the last vertex with \<open>grid_size - 1\<close> taken from its second
  coordinate when the grid size is even; for grid size 2 and last vertex \<open>(1, 1)\<close> the
  end position is \<open>(1, 0)\<close>.
\<close>

theorem end_position_parity:
  "(odd (grid_size drone_info) \<longrightarrow>
      (end_position_x (sweep_init drone_info), end_position_y (sweep_init drone_info)) =
      (fst (last_vertice drone_info), snd (last_vertice drone_info))) \<and>
   (even (grid_size drone_info) \<longrightarrow>
      (end_position_x (sweep_init drone_info), end_position_y (sweep_init drone_info)) =
      (fst (last_vertice drone_info),
       snd (last_vertice drone_info) - grid_size drone_info + 1)) \<and>
   (end_position_x (sweep_init \<lparr>grid_size = 2, initial_position = (0, 0), last_vertice = (1, 1)\<rparr>),
    end_position_y (sweep_init \<lparr>grid_size = 2, initial_position = (0, 0), last_vertice = (1, 1)\<rparr>)) =
   (1, 0)"
  by (simp add: sweep_init_def get_end_position_def Let_def case_prod_beta
      even_iff_mod_2_eq_zero)

text \<open>The theorem at an even grid size, 4, and at an odd one, 3.\<close>

theorem end_position_parity_witness:
  "even (grid_size \<lparr>grid_size = 4, initial_position = (0, 0), last_vertice = (3, 3)\<rparr>) \<and>
   (end_position_x (sweep_init \<lparr>grid_size = 4, initial_position = (0, 0), last_vertice = (3, 3)\<rparr>),
    end_position_y (sweep_init \<lparr>grid_size = 4, initial_position = (0, 0), last_vertice = (3, 3)\<rparr>)) =
   (3, 0) \<and>
   odd (grid_size \<lparr>grid_size = 3, initial_position = (0, 0), last_vertice = (2, 2)\<rparr>) \<and>
   (end_position_x (sweep_init \<lparr>grid_size = 3, initial_position = (0, 0), last_vertice = (2, 2)\<rparr>),
    end_position_y (sweep_init \<lparr>grid_size = 3, initial_position = (0, 0), last_vertice = (2, 2)\<rparr>)) =
   (2, 2)"
  using end_position_parity [of "\<lparr>grid_size = 4, initial_position = (0, 0), last_vertice = (3, 3)\<rparr>"]
    end_position_parity [of "\<lparr>grid_size = 3, initial_position = (0, 0), last_vertice = (2, 2)\<rparr>"]
  by simp

text \<open>
  C8 as stated fails: the constructor does not reject a grid size \<open>\<le> 0\<close>. For the grid
  size 0 it returns a planner.
\<close>

theorem construct_sweep_counterexample:
  "construct_sweep \<lparr>grid_size = 0, initial_position = (0, 0), last_vertice = (- 1, - 1)\<rparr> =
     Inr \<lparr>sweep_grid_size = 0, drone_x = 0, drone_y = 0, last_vertice_x = - 1,
          last_vertice_y = - 1, end_position_x = - 1, end_position_y = 0,
          is_going_down = True\<rparr>"
  by (simp add: construct_sweep_def sweep_init_def get_end_position_def)

text \<open>
  C8, as amended. The constructor of the planner validates nothing: for every
  \<open>DroneInfo\<close>, a grid size \<open>\<le> 0\<close> included, it returns a planner with that grid
  size, in the phase \<open>is_going_down\<close>.
\<close>

theorem construct_sweep_total:
  "\<exists>s. construct_sweep drone_info = Inr s \<and> sweep_grid_size s = grid_size drone_info \<and>
       is_going_down s"
  by (simp add: construct_sweep_def sweep_init_def Let_def case_prod_beta)

text \<open>
  C1 (full coverage) on the \<open>2 \<times> 2\<close> grid. The sweep down is the first six calls of
  \<open>next\<close>: the sixth is the one that flips \<open>is_going_down\<close>. The stream passes all
  four cells and ends in the end position \<open>(1, 0)\<close>, but it emits no \<open>search\<close> at the
  cell \<open>(0, 1)\<close>, where the first row ends: \<open>down\<close> follows \<open>right\<close> at once.
\<close>

theorem down_sweep_skips_search:
  "stream_prefix 6 (square_generator 2) = [search, right, down, search, left, search] \<and>
   map (\<lambda>k. is_going_down (self (pulls k (square_generator 2)))) [0..<7] =
     [True, True, True, True, True, True, False] \<and>
   visited_cells (0, 0) (stream_prefix 6 (square_generator 2)) =
     [(0, 0), (0, 0), (0, 1), (1, 1), (1, 1), (1, 0), (1, 0)] \<and>
   searched_cells (0, 0) (stream_prefix 6 (square_generator 2)) = [(0, 0), (1, 1), (1, 0)] \<and>
   (0, 1) \<in> set (visited_cells (0, 0) (stream_prefix 6 (square_generator 2))) \<and>
   (0, 1) \<notin> set (searched_cells (0, 0) (stream_prefix 6 (square_generator 2)))"
  by code_simp

text \<open>
  C7 (search before every move) on the \<open>2 \<times> 2\<close> and the \<open>3 \<times> 3\<close> grid: the move
  \<open>down\<close> at the end of the first row comes right after the move \<open>right\<close>, with no
  \<open>search\<close> between them.
\<close>

theorem vertical_move_without_search:
  "stream_prefix 3 (square_generator 2) = [search, right, down] \<and>
   stream_prefix 6 (square_generator 3) = [search, right, search, right, down, search]"
  by code_simp

section \<open>The claims on the coordinator\<close>





text \<open>
  C5 (invalid agent count). When the number of agents is not 1, not 2 and not a multiple
  of 4, the constructor of the coordinator ends in the \<open>ValueError\<close> of line 157,
  whatever the grid size, and so does the computation of the sub-grid size: no
  sub-grid size is returned.
\<close>

theorem invalid_agent_count:
  assumes "length (possible_agents env) \<noteq> 1" and "length (possible_agents env) \<noteq> 2"
    and "length (possible_agents env) mod 4 \<noteq> 0"
  shows "swarm_init env =
           Inl (ValueError ''The number of agents must be 1 or 2 or a multiple of 4'') \<and>
         get_each_drone_grid_size gs (length (possible_agents env)) =
           Inl (ValueError ''The number of agents must be 1 or 2 or a multiple of 4'')"
  using assms by (simp add: swarm_init_def get_each_drone_grid_size_def)

text \<open>The theorem for 3, 5, 6 and 7 agents.\<close>

theorem invalid_agent_count_witness:
  "swarm_init \<lparr>env_grid_size = 9, possible_agents = [''drone0'', ''drone1'', ''drone2'']\<rparr> =
     Inl (ValueError ''The number of agents must be 1 or 2 or a multiple of 4'') \<and>
   swarm_init \<lparr>env_grid_size = 10, possible_agents = replicate 5 ''drone''\<rparr> =
     Inl (ValueError ''The number of agents must be 1 or 2 or a multiple of 4'') \<and>
   swarm_init \<lparr>env_grid_size = 12, possible_agents = replicate 6 ''drone''\<rparr> =
     Inl (ValueError ''The number of agents must be 1 or 2 or a multiple of 4'') \<and>
   swarm_init \<lparr>env_grid_size = 7, possible_agents = replicate 7 ''drone''\<rparr> =
     Inl (ValueError ''The number of agents must be 1 or 2 or a multiple of 4'')"
  using invalid_agent_count [of "\<lparr>env_grid_size = 9, possible_agents = [''drone0'', ''drone1'', ''drone2'']\<rparr>" 9]
    invalid_agent_count [of "\<lparr>env_grid_size = 10, possible_agents = replicate 5 ''drone''\<rparr>" 10]
    invalid_agent_count [of "\<lparr>env_grid_size = 12, possible_agents = replicate 6 ''drone''\<rparr>" 12]
    invalid_agent_count [of "\<lparr>env_grid_size = 7, possible_agents = replicate 7 ''drone''\<rparr>" 7]
  by simp

text \<open>
  C10 (no agents). With no agent the test of line 156 passes, since \<open>0 % 4 = 0\<close>; the
  divisor is \<open>sqrt(0) = 0.0\<close>, and the constructor ends in the \<open>ZeroDivisionError\<close>
  of line 161, not in the \<open>ValueError\<close> of line 157, whatever the grid size.
\<close>

theorem zero_agents_division_by_zero:
  "swarm_init \<lparr>env_grid_size = gs, possible_agents = []\<rparr> = Inl ZeroDivisionError \<and>
   swarm_init \<lparr>env_grid_size = gs, possible_agents = []\<rparr> \<noteq>
     Inl (ValueError ''The number of agents must be 1 or 2 or a multiple of 4'') \<and>
   get_each_drone_grid_size gs 0 = Inl ZeroDivisionError"
  by (simp add: swarm_init_def get_each_drone_grid_size_def)

text \<open>The theorem on a grid of size 8.\<close>

theorem zero_agents_division_by_zero_witness:
  "swarm_init \<lparr>env_grid_size = 8, possible_agents = []\<rparr> = Inl ZeroDivisionError \<and>
   get_each_drone_grid_size 8 0 = Inl ZeroDivisionError"
  using zero_agents_division_by_zero [of 8] by simp

lemma digit_inj:
  assumes "a < 10" and "b < 10" and "''0123456789'' ! a = ''0123456789'' ! b"
  shows "a = b"
proof -
  have "distinct ''0123456789''" by simp
  moreover have "a < length ''0123456789''" "b < length ''0123456789''" using assms by simp_all
  ultimately show ?thesis using assms(3) by (simp only: nth_eq_iff_index_eq)
qed

lemma str_nat_not_Nil: "str_nat n \<noteq> []"
  by (subst str_nat.simps) simp

lemma str_nat_inj: "str_nat m = str_nat n \<Longrightarrow> m = n"
proof (induction m arbitrary: n rule: str_nat.induct)
  case (1 m)
  show ?case
  proof (cases "m < 10")
    case m: True
    show ?thesis
    proof (cases "n < 10")
      case True
      with m "1.prems" show ?thesis
        by (subst (asm) str_nat.simps, subst (asm) (2) str_nat.simps) (simp add: digit_inj)
    next
      case False
      with m "1.prems" show ?thesis
        by (subst (asm) str_nat.simps, subst (asm) (2) str_nat.simps)
           (simp add: str_nat_not_Nil str_nat_not_Nil [symmetric])
    qed
  next
    case m: False
    show ?thesis
    proof (cases "n < 10")
      case True
      with m "1.prems" show ?thesis
        by (subst (asm) str_nat.simps, subst (asm) (2) str_nat.simps)
           (simp add: str_nat_not_Nil str_nat_not_Nil [symmetric])
    next
      case False
      with m "1.prems" have eq: "str_nat (m div 10) = str_nat (n div 10)"
        and dg: "''0123456789'' ! (m mod 10) = ''0123456789'' ! (n mod 10)"
        by (subst (asm) str_nat.simps, subst (asm) (2) str_nat.simps, simp)+
      from "1.IH" [OF m eq] have "m div 10 = n div 10" .
      moreover from dg have "m mod 10 = n mod 10" by (intro digit_inj) simp_all
      ultimately show ?thesis by (metis div_mult_mod_eq)
    qed
  qed
qed

lemma drone_key_inj: "inj drone_key"
  by (rule injI) (simp add: drone_key_def str_nat_inj)

lemma fold_action_map:
  "fold (\<lambda>i actions. actions(drone_key i \<mapsto> a)) [0..<n] m =
     (\<lambda>key. if key \<in> drone_key ` {..<n} then Some a else m key)"
proof (induction n)
  case 0
  show ?case by simp
next
  case (Suc n)
  have "fold (\<lambda>i actions. actions(drone_key i \<mapsto> a)) [0..<Suc n] m =
        (fold (\<lambda>i actions. actions(drone_key i \<mapsto> a)) [0..<n] m)(drone_key n \<mapsto> a)"
    by simp
  also have "\<dots> = (\<lambda>key. if key \<in> drone_key ` {..<n} then Some a else m key)
                    (drone_key n \<mapsto> a)"
    by (simp only: Suc)
  also have "\<dots> = (\<lambda>key. if key \<in> drone_key ` {..<Suc n} then Some a else m key)"
    by (rule ext) (auto simp: lessThan_Suc)
  finally show ?case .
qed

lemma action_map_eq:
  "action_map n a = (\<lambda>key. if key \<in> drone_key ` {..<n} then Some a else None)"
  by (simp add: action_map_def fold_action_map)

lemma card_drone_keys: "card (drone_key ` {..<n}) = n"
  by (simp add: card_image inj_on_subset [OF drone_key_inj])

text \<open>The first action map for 4 agents on the \<open>8 \<times> 8\<close> grid.\<close>

lemma nth_action_map_8_4:
  "nth_action_map 0 \<lparr>swarm_grid_size = 8, n_drones = 4, grid_size_each_drone = 4\<rparr> =
     Some [''drone0'' \<mapsto> 4, ''drone1'' \<mapsto> 4, ''drone2'' \<mapsto> 4, ''drone3'' \<mapsto> 4]"
  by (simp add: nth_action_map_def generate_next_action_def genarate_next_action_def
      reference_generator_def get_first_drone_info_def new_generator_def sweep_init_def
      get_end_position_def step_defs action_map_def drone_key_def str_nat.simps upt_rec)

text \<open>
  C9 (broadcast consistency), as amended. For every coordinator that was constructed
  with \<open>N\<close> agents, every action map it yields has exactly the \<open>N\<close> keys
  \<open>drone0\<close>, ..., \<open>drone\<close>\<^emph>\<open>(N - 1)\<close> and gives each of them the code of the one action
  that the reference planner yields in that tick; in particular for 4 agents on an
  \<open>8 \<times> 8\<close> grid, where the sub-grid size is 4.
\<close>

theorem broadcast_consistency:
  assumes "swarm_init env = Inr m" and "nth_action_map k m = Some actions"
  shows "n_drones m = length (possible_agents env) \<and>
         dom actions = drone_key ` {..<n_drones m} \<and>
         card (dom actions) = n_drones m \<and>
         (\<exists>a. nth_action k (reference_generator m) = Some a \<and>
              (\<forall>i<n_drones m. actions (drone_key i) = Some (action_value a))) \<and>
         swarm_init \<lparr>env_grid_size = 8,
                     possible_agents = [''drone0'', ''drone1'', ''drone2'', ''drone3'']\<rparr> =
           Inr \<lparr>swarm_grid_size = 8, n_drones = 4, grid_size_each_drone = 4\<rparr>"
proof -
  have n: "n_drones m = length (possible_agents env)"
    using assms(1) by (auto simp: swarm_init_def Let_def split: sum.splits)
  from assms(2) obtain a where a: "nth_action k (reference_generator m) = Some a"
    and acts: "actions = action_map (n_drones m) (action_value a)"
    by (auto simp: nth_action_map_def generate_next_action_def genarate_next_action_def
        nth_action_def split: prod.splits option.splits)
  have dom: "dom actions = drone_key ` {..<n_drones m}"
    unfolding acts action_map_eq by (auto simp: dom_def)
  have "\<forall>i<n_drones m. actions (drone_key i) = Some (action_value a)"
    unfolding acts action_map_eq by auto
  moreover have "swarm_init \<lparr>env_grid_size = 8,
                     possible_agents = [''drone0'', ''drone1'', ''drone2'', ''drone3'']\<rparr> =
           Inr \<lparr>swarm_grid_size = 8, n_drones = 4, grid_size_each_drone = 4\<rparr>"
    by (simp add: swarm_init_def get_each_drone_grid_size_def py_int_def)
  ultimately show ?thesis using n a dom by (simp add: card_drone_keys)
qed

text \<open>
  The theorem for 4 agents on the \<open>8 \<times> 8\<close> grid, at the first tick: the map gives the
  code 4 of \<open>search\<close> to the four keys.
\<close>

theorem broadcast_consistency_witness:
  "swarm_init \<lparr>env_grid_size = 8,
               possible_agents = [''drone0'', ''drone1'', ''drone2'', ''drone3'']\<rparr> =
     Inr \<lparr>swarm_grid_size = 8, n_drones = 4, grid_size_each_drone = 4\<rparr> \<and>
   nth_action_map 0 \<lparr>swarm_grid_size = 8, n_drones = 4, grid_size_each_drone = 4\<rparr> =
     Some [''drone0'' \<mapsto> 4, ''drone1'' \<mapsto> 4, ''drone2'' \<mapsto> 4, ''drone3'' \<mapsto> 4] \<and>
   dom [''drone0'' \<mapsto> 4::int, ''drone1'' \<mapsto> 4, ''drone2'' \<mapsto> 4, ''drone3'' \<mapsto> 4] =
     drone_key ` {..<4} \<and>
   card (dom [''drone0'' \<mapsto> 4::int, ''drone1'' \<mapsto> 4, ''drone2'' \<mapsto> 4, ''drone3'' \<mapsto> 4]) = 4"
proof -
  have made: "swarm_init \<lparr>env_grid_size = 8,
               possible_agents = [''drone0'', ''drone1'', ''drone2'', ''drone3'']\<rparr> =
     Inr \<lparr>swarm_grid_size = 8, n_drones = 4, grid_size_each_drone = 4\<rparr>"
    by (simp add: swarm_init_def get_each_drone_grid_size_def py_int_def)
  have four: "n_drones \<lparr>swarm_grid_size = 8, n_drones = 4, grid_size_each_drone = 4\<rparr> = 4"
    by simp
  note all = broadcast_consistency [OF made nth_action_map_8_4]
  from all have "dom [''drone0'' \<mapsto> 4::int, ''drone1'' \<mapsto> 4, ''drone2'' \<mapsto> 4, ''drone3'' \<mapsto> 4] =
      drone_key ` {..<n_drones \<lparr>swarm_grid_size = 8, n_drones = 4, grid_size_each_drone = 4\<rparr>}"
    by blast
  then have keys: "dom [''drone0'' \<mapsto> 4::int, ''drone1'' \<mapsto> 4, ''drone2'' \<mapsto> 4, ''drone3'' \<mapsto> 4] =
      drone_key ` {..<4}"
    by (simp only: four)
  from all have "card (dom [''drone0'' \<mapsto> 4::int, ''drone1'' \<mapsto> 4, ''drone2'' \<mapsto> 4, ''drone3'' \<mapsto> 4]) =
      n_drones \<lparr>swarm_grid_size = 8, n_drones = 4, grid_size_each_drone = 4\<rparr>"
    by blast
  then have number: "card (dom [''drone0'' \<mapsto> 4::int, ''drone1'' \<mapsto> 4, ''drone2'' \<mapsto> 4, ''drone3'' \<mapsto> 4]) = 4"
    by (simp only: four)
  from made nth_action_map_8_4 keys number show ?thesis by blast
qed

text \<open>
  C9 as stated fails in its example: for 4 agents on the \<open>8 \<times> 8\<close> grid the sub-grid
  size is \<open>8 / sqrt(4) = 4\<close>, not 2.
\<close>

theorem sub_grid_size_counterexample:
  "swarm_init \<lparr>env_grid_size = 8,
               possible_agents = [''drone0'', ''drone1'', ''drone2'', ''drone3'']\<rparr> =
     Inr \<lparr>swarm_grid_size = 8, n_drones = 4, grid_size_each_drone = 4\<rparr> \<and>
   grid_size_each_drone \<lparr>swarm_grid_size = 8, n_drones = 4, grid_size_each_drone = 4\<rparr> \<noteq> 2"
  by (simp add: swarm_init_def get_each_drone_grid_size_def py_int_def)

end
